theory Spec2Isabelle
  imports Main
begin

section \<open>The action engine of coc-explorer (src/actions/actionSource.ts)\<close>

text \<open>
  The class \<open>ActionSource\<close> resolves action names against a local and a global
  registry (\<open>registeredAction\<close>, \<open>registeredActions\<close>), invokes one action against a
  list of tree nodes (\<open>doAction\<close>) and interprets action expressions
  (\<open>doActionExp\<close>). The embedding below follows the TypeScript line by line.

  Every \<open>await\<close> is a sequential step: one call is followed from its start to the
  moment its promise settles. A rejected promise or a thrown value is the first
  component \<open>Some failure\<close> of a result; the state reached so far is always returned
  with it, since the effects made before a throw stay.
\<close>

subsection \<open>Data model\<close>

type_synonym MappingMode = string

text \<open>
  What a call can be rejected with: the \<open>TypeError\<close> JavaScript raises when a
  property of \<open>undefined\<close> is read, or whatever value a callback threw.
\<close>

datatype 'e failure = TypeError | Thrown 'e

text \<open>
  The calls the engine makes on its collaborators, in the order it makes them:
  \<open>source.view.requestRenderNodes(nodes)\<close>, \<open>action.callback.call(source, {nodes, args, mode})\<close>
  (logged with the name the action was resolved from),
  \<open>source.load(source.view.rootNode)\<close>, \<open>source.view.render()\<close>,
  \<open>global.waitActionMutex.acquire()\<close> and the release function it returned.
  An element of a node list handed to a callback is \<open>None\<close> where JavaScript has
  \<open>undefined\<close> (see \<open>[finalNodes[0]]\<close> in \<open>doAction\<close>).
\<close>

datatype 'n event =
    RequestRenderNodes "'n list"
  | Callback string "'n option list" "string list" MappingMode
  | Load
  | Render
  | Acquire
  | Release

text \<open>
  The mutable state the engine touches: \<open>source.selectedNodes\<close>, a JavaScript \<open>Set\<close>,
  kept as the list of its elements in iteration (insertion) order, and the log of
  the calls made so far, oldest first.
\<close>

record 'n state =
  selectedNodes :: "'n list"
  trace :: "'n event list"

text \<open>\<open>options.select\<close> has the type \<open>boolean | 'visual' | 'keep'\<close>.\<close>

datatype select_option = SelectBool bool | SelectVisual | SelectKeep

text \<open>
  The three option fields \<open>doAction\<close> destructures; each may be absent
  (\<open>undefined\<close>), which is \<open>None\<close>.
\<close>

record ActionOptions =
  select :: "select_option option"
  render :: "bool option"
  reload :: "bool option"

text \<open>
  A registered action. Its callback is given the node list, the arguments and the
  mode; it may change the selection of the source, and it settles either normally
  (\<open>None\<close>) or with a thrown value.
\<close>

record ('n, 'e) Action =
  callback :: "'n option list \<Rightarrow> string list \<Rightarrow> MappingMode \<Rightarrow> 'n list \<Rightarrow> 'e option \<times> 'n list"
  options :: ActionOptions
  description :: string

text \<open>\<open>ActionExp = Action | ActionExp[]\<close>, a leaf being \<open>{name, args}\<close>.\<close>

datatype ActionExp = Leaf string "string list" | Seq "ActionExp list"

text \<open>The options object of \<open>doActionExp\<close>; both fields are optional.\<close>

record Options =
  mode :: "MappingMode option"
  isSubAction :: "bool option"

text \<open>The parameter \<open>nodes: TreeNode | TreeNode[]\<close> of \<open>doAction\<close>.\<close>

datatype 'n NodesArg = Single 'n | Multiple "'n list"

text \<open>
  What the class reads from its surroundings: its own table \<open>this.actions\<close>, the
  table \<open>this.global.actions\<close>, and the two imports of \<open>./special\<close>, which are not part
  of the source at hand and are therefore parameters: the name \<open>waitAction.name\<close> and
  the table \<open>conditionActionRules\<close>, whose entries carry the predicate
  \<open>rule.filter(source, node, args)\<close>. A table is given by its own properties; what a
  lookup finds beyond them is modelled by \<open>objectGet\<close> below.
\<close>

record ('n, 'e) env =
  actions :: "string \<rightharpoonup> ('n, 'e) Action"
  globalActions :: "string \<rightharpoonup> ('n, 'e) Action"
  waitActionName :: string
  conditionActionRules :: "string \<rightharpoonup> ('n state \<Rightarrow> 'n \<Rightarrow> string list \<Rightarrow> bool)"

subsection \<open>JavaScript defaults\<close>

text \<open>
  A default parameter, a destructuring default (\<open>{ select = false } = action.options\<close>)
  and \<open>options.mode ?? 'n'\<close>: the default stands in for an absent value.
\<close>

fun orDefault :: "'a \<Rightarrow> 'a option \<Rightarrow> 'a" where
  "orDefault d None = d"
| "orDefault d (Some v) = v"

subsection \<open>Helpers imported from ../util\<close>

text \<open>
  Modelled from the spec: \<open>uniq\<close> of \<open>../util\<close>, which is not among the sources.
  The spec calls its result "the union (by identity, duplicates removed)"; the
  first occurrence of every element is kept, in order.
\<close>

fun uniq :: "'a list \<Rightarrow> 'a list" where
  "uniq [] = []"
| "uniq (x # xs) = x # uniq (filter (\<lambda>y. y \<noteq> x) xs)"

text \<open>
  Modelled from the spec: \<open>partition\<close> of \<open>../util\<close>, which is not among the sources.
  The spec: "partition items into trueItems/falseItems using that entry's
  predicate (... decides per item)".
\<close>

fun partition_util :: "'a list \<Rightarrow> ('a \<Rightarrow> bool) \<Rightarrow> 'a list \<times> 'a list" where
  "partition_util [] p = ([], [])"
| "partition_util (x # xs) p =
     (case partition_util xs p of
        (ts, fs) \<Rightarrow> if p x then (x # ts, fs) else (ts, x # fs))"

text \<open>Reading \<open>xs[i]\<close> from a JavaScript array: \<open>undefined\<close> (\<open>None\<close>) out of range.\<close>

definition arrayGet :: "'a list \<Rightarrow> nat \<Rightarrow> 'a option" where
  "arrayGet xs i = (if i < length xs then Some (xs ! i) else None)"

subsection \<open>Property lookup on a JavaScript object\<close>

text \<open>
  The two action tables and \<open>conditionActionRules\<close> are ordinary objects used as
  dictionaries (\<open>registeredActions\<close> builds one with an object literal), and the
  source reads them with \<open>table[name]\<close>. Such a read finds the table's own entry
  under that name and, when there is none, whatever \<open>Object.prototype\<close> provides
  under it; only when both miss is the result \<open>undefined\<close>. The inherited values
  are functions, or \<open>Object.prototype\<close> itself for \<open>__proto__\<close>: all of them
  are truthy, and none has a property \<open>options\<close> or \<open>filter\<close>.
\<close>

datatype 'a property = Undefined | Inherited | Own 'a

definition objectPrototypeNames :: "string list" where
  "objectPrototypeNames =
     [''constructor'', ''hasOwnProperty'', ''isPrototypeOf'', ''propertyIsEnumerable'',
      ''toLocaleString'', ''toString'', ''valueOf'', ''__proto__'',
      ''__defineGetter__'', ''__defineSetter__'', ''__lookupGetter__'', ''__lookupSetter__'']"

definition objectGet :: "(string \<rightharpoonup> 'a) \<Rightarrow> string \<Rightarrow> 'a property" where
  "objectGet obj name =
     (case obj name of
        Some v \<Rightarrow> Own v
      | None \<Rightarrow> if name \<in> set objectPrototypeNames then Inherited else Undefined)"

subsection \<open>The registry\<close>

text \<open>\<open>{ ...this.global.actions, ...this.actions }\<close>: later spreads override earlier ones.\<close>

definition registeredActions :: "('n, 'e) env \<Rightarrow> (string \<rightharpoonup> ('n, 'e) Action)" where
  "registeredActions env = globalActions env ++ actions env"

text \<open>
  \<open>this.actions[name] || this.global.actions[name]\<close>: the local lookup wins unless it
  is \<open>undefined\<close>; an action object is truthy, and so is an inherited value.
\<close>

definition registeredAction :: "('n, 'e) env \<Rightarrow> string \<Rightarrow> ('n, 'e) Action property" where
  "registeredAction env name =
     (case objectGet (actions env) name of
        Undefined \<Rightarrow> objectGet (globalActions env) name
      | Inherited \<Rightarrow> Inherited
      | Own a \<Rightarrow> Own a)"

subsection \<open>Calls on the collaborators\<close>

definition selectedNodes_clear :: "'n state \<Rightarrow> 'n state" where
  "selectedNodes_clear s = s\<lparr>selectedNodes := []\<rparr>"

definition emit :: "'n event \<Rightarrow> 'n state \<Rightarrow> 'n state" where
  "emit e s = s\<lparr>trace := trace s @ [e]\<rparr>"

definition view_requestRenderNodes :: "'n list \<Rightarrow> 'n state \<Rightarrow> 'n state" where
  "view_requestRenderNodes ns s = emit (RequestRenderNodes ns) s"

definition source_load :: "'n state \<Rightarrow> 'n state" where
  "source_load s = emit Load s"

definition view_render :: "'n state \<Rightarrow> 'n state" where
  "view_render s = emit Render s"

definition mutex_acquire :: "'n state \<Rightarrow> 'n state" where
  "mutex_acquire s = emit Acquire s"

definition waitRelease_call :: "'n state \<Rightarrow> 'n state" where
  "waitRelease_call s = emit Release s"

text \<open>
  \<open>await action.callback.call(source, {source, nodes, args, mode})\<close>: the call is
  logged, the callback works on the selection as it is at that moment, and its
  outcome is the outcome of the \<open>await\<close>.
\<close>

definition callback_call ::
  "('n, 'e) Action \<Rightarrow> string \<Rightarrow> 'n option list \<Rightarrow> string list \<Rightarrow> MappingMode \<Rightarrow> 'n state
     \<Rightarrow> 'e failure option \<times> 'n state" where
  "callback_call action name ns args m s =
     (case callback action ns args m (selectedNodes s) of
        (out, sel) \<Rightarrow>
          (map_option Thrown out,
           s\<lparr>selectedNodes := sel, trace := trace s @ [Callback name ns args m]\<rparr>))"

subsection \<open>doAction\<close>

text \<open>\<open>Array.isArray(nodes) ? nodes : [nodes]\<close>\<close>

fun finalNodesOf :: "'n NodesArg \<Rightarrow> 'n list" where
  "finalNodesOf (Single n) = [n]"
| "finalNodesOf (Multiple ns) = ns"

text \<open>
  The \<open>finally\<close> block of \<open>doAction\<close>: \<open>if (reload) load(...) else if (render) render()\<close>,
  with the defaults \<open>render = false\<close>, \<open>reload = false\<close>.
\<close>

definition doAction_finally :: "ActionOptions \<Rightarrow> 'n state \<Rightarrow> 'n state" where
  "doAction_finally opts s =
     (if orDefault False (reload opts) then source_load s
      else if orDefault False (render opts) then view_render s
      else s)"

text \<open>
  The \<open>try\<close> block of \<open>doAction\<close>: the chain of tests on \<open>select\<close>
  (default \<open>false\<close>), in the order of the source.
\<close>

definition doAction_try ::
  "('n, 'e) Action \<Rightarrow> string \<Rightarrow> 'n list \<Rightarrow> string list \<Rightarrow> MappingMode \<Rightarrow> 'n state
     \<Rightarrow> 'e failure option \<times> 'n state" where
  "doAction_try action name finalNodes args m s =
     (let sel = orDefault (SelectBool False) (select (options action)) in
      if sel = SelectBool True then
        (let allNodes = uniq (finalNodes @ selectedNodes s);
             s1 = selectedNodes_clear s;
             s2 = view_requestRenderNodes allNodes s1
         in callback_call action name (map Some allNodes) args m s2)
      else if sel = SelectBool False then
        callback_call action name [arrayGet finalNodes 0] args m s
      else if sel = SelectVisual then
        callback_call action name (map Some finalNodes) args m s
      else if sel = SelectKeep then
        (let allNodes = uniq (finalNodes @ selectedNodes s)
         in callback_call action name (map Some allNodes) args m s)
      else (None, s))"

text \<open>
  \<open>doAction(name, nodes, args = [], mode = 'n')\<close>. The call returns at once when the
  lookup gave \<open>undefined\<close>. When it gave an inherited value, \<open>action.options\<close> is
  \<open>undefined\<close> and the destructuring \<open>const { select = false, ... } = action.options\<close>
  throws a \<open>TypeError\<close>, before the \<open>try\<close> statement is entered. Otherwise the
  \<open>catch\<close> clause rethrows, so the outcome of the \<open>try\<close> block is the outcome of the
  call, after the \<open>finally\<close> block has run.
\<close>

definition doAction ::
  "('n, 'e) env \<Rightarrow> string \<Rightarrow> 'n NodesArg \<Rightarrow> string list option \<Rightarrow> MappingMode option \<Rightarrow> 'n state
     \<Rightarrow> 'e failure option \<times> 'n state" where
  "doAction env name nodes args_opt mode_opt s =
     (case registeredAction env name of
        Undefined \<Rightarrow> (None, s)
      | Inherited \<Rightarrow> (Some TypeError, s)
      | Own action \<Rightarrow>
          (let args = orDefault [] args_opt;
               m = orDefault ''n'' mode_opt;
               finalNodes = finalNodesOf nodes
           in case doAction_try action name finalNodes args m s of
                (r, s1) \<Rightarrow> (r, doAction_finally (options action) s1)))"

subsection \<open>doActionExp\<close>

text \<open>\<open>const subOptions = { mode: mode, isSubAction: true }\<close>\<close>

definition subOptionsOf :: "MappingMode \<Rightarrow> Options" where
  "subOptionsOf m = \<lparr>mode = Some m, isSubAction = Some True\<rparr>"

text \<open>An element of a sequence is smaller than the sequence (for termination).\<close>

lemma size_nth_less:
  "i < length xs \<Longrightarrow> size (xs ! i) < Suc (size_list size xs)"
  by (metis nth_mem size_list_estimation' le_imp_less_Suc order_refl)

lemma size_nth_Seq_less:
  "i < length xs \<Longrightarrow> xs ! i = Seq ys \<Longrightarrow> size_list size ys < size_list size xs"
  using size_nth_less [of i xs] by simp

text \<open>
  \<open>doActionExp(actionExp, nodes, options)\<close> and its \<open>for\<close> loop. The first argument is
  \<open>None\<close> when the caller read it from beyond the end of a sequence
  (\<open>actionExp[i + 1]\<close>, \<open>actionExp[i + 2]\<close>): then \<open>Array.isArray\<close> is false and reading
  \<open>actionExp.name\<close> throws a \<open>TypeError\<close>.

  The loop carries the index \<open>i\<close> and the local variable \<open>waitRelease\<close> (true once
  the release function is held) and returns \<open>waitRelease\<close> with its result, for the
  \<open>finally\<close> block \<open>waitRelease?.()\<close>. A failure of an awaited call leaves the loop at
  once. The \<open>catch\<close> clause rethrows.

  \<open>const rule = conditionActionRules[action.name]; if (rule)\<close> is a lookup as above. For
  an inherited value \<open>rule.filter\<close> is \<open>undefined\<close>, so the predicate given to
  \<open>partition\<close> throws a \<open>TypeError\<close> at the first node; with no node at all both lists
  are empty, both branches are skipped and the index still advances by two.
\<close>

function
  doActionExp ::
    "('n, 'e) env \<Rightarrow> ActionExp option \<Rightarrow> 'n list \<Rightarrow> Options \<Rightarrow> 'n state
       \<Rightarrow> 'e failure option \<times> 'n state"
and
  doActionExp_loop ::
    "('n, 'e) env \<Rightarrow> ActionExp list \<Rightarrow> nat \<Rightarrow> 'n list \<Rightarrow> MappingMode \<Rightarrow> bool \<Rightarrow> bool \<Rightarrow> 'n state
       \<Rightarrow> 'e failure option \<times> bool \<times> 'n state"
where
  "doActionExp env None nodes opts s = (Some TypeError, s)"
| "doActionExp env (Some (Leaf name args)) nodes opts s =
     doAction env name (Multiple nodes) (Some args)
       (Some (orDefault ''n'' (mode opts))) s"
| "doActionExp env (Some (Seq actionExp)) nodes opts s =
     (let m = orDefault ''n'' (mode opts);
          isSub = orDefault False (isSubAction opts)
      in case doActionExp_loop env actionExp 0 nodes m isSub False s of
           (r, waitRelease, s1) \<Rightarrow>
             (r, if waitRelease then waitRelease_call s1 else s1))"
| "doActionExp_loop env actionExp i nodes m isSub waitRelease s =
     (if i < length actionExp then
        (case actionExp ! i of
           Seq ys \<Rightarrow>
             (case doActionExp env (Some (actionExp ! i)) nodes (subOptionsOf m) s of
                (Some e, s1) \<Rightarrow> (Some e, waitRelease, s1)
              | (None, s1) \<Rightarrow>
                  doActionExp_loop env actionExp (i + 1) nodes m isSub waitRelease s1)
         | Leaf name args \<Rightarrow>
             if name = waitActionName env then
               (if waitRelease \<or> isSub then
                  doActionExp_loop env actionExp (i + 1) nodes m isSub waitRelease s
                else
                  doActionExp_loop env actionExp (i + 1) nodes m isSub True (mutex_acquire s))
             else
               (case objectGet (conditionActionRules env) name of
                  Own rule \<Rightarrow>
                    (case partition_util nodes (\<lambda>node. rule s node args) of
                       (trueNodes, falseNodes) \<Rightarrow>
                         (let trueAction = arrayGet actionExp (i + 1);
                              falseAction = arrayGet actionExp (i + 2)
                          in case (if trueNodes \<noteq> []
                                   then doActionExp env trueAction trueNodes (subOptionsOf m) s
                                   else (None, s)) of
                               (Some e, s1) \<Rightarrow> (Some e, waitRelease, s1)
                             | (None, s1) \<Rightarrow>
                                 (case (if falseNodes \<noteq> []
                                        then doActionExp env falseAction falseNodes (subOptionsOf m) s1
                                        else (None, s1)) of
                                    (Some e, s2) \<Rightarrow> (Some e, waitRelease, s2)
                                  | (None, s2) \<Rightarrow>
                                      doActionExp_loop env actionExp (i + 3) nodes m isSub waitRelease s2)))
                | Inherited \<Rightarrow>
                    if nodes \<noteq> [] then (Some TypeError, waitRelease, s)
                    else doActionExp_loop env actionExp (i + 3) nodes m isSub waitRelease s
                | Undefined \<Rightarrow>
                    (case doActionExp env (Some (actionExp ! i)) nodes (subOptionsOf m) s of
                       (Some e, s1) \<Rightarrow> (Some e, waitRelease, s1)
                     | (None, s1) \<Rightarrow>
                         doActionExp_loop env actionExp (i + 1) nodes m isSub waitRelease s1)))
      else (None, waitRelease, s))"
  by pat_completeness auto

termination
  apply (relation "measures
     [\<lambda>x. case x of
             Inl (env, eo, nodes, opts, s) \<Rightarrow> (case eo of None \<Rightarrow> 0 | Some e \<Rightarrow> size e)
           | Inr (env, xs, i, nodes, m, isSub, w, s) \<Rightarrow> Suc (size_list size xs),
      \<lambda>x. case x of
             Inl (env, eo, nodes, opts, s) \<Rightarrow> (case eo of Some (Seq xs) \<Rightarrow> Suc (length xs) | _ \<Rightarrow> 0)
           | Inr (env, xs, i, nodes, m, isSub, w, s) \<Rightarrow> length xs - i]")
  apply (auto simp: arrayGet_def size_nth_less size_nth_Seq_less split: option.splits)
  done

text \<open>
  The loop equation is recursive without a pattern to guard it, so it is unfolded
  by hand, one iteration at a time.
\<close>

declare doActionExp_loop.simps [simp del]

subsection \<open>The barrier events of a trace\<close>

text \<open>The acquisitions and releases of the mutex among the logged calls, in order.\<close>

definition barrierEvents :: "'n event list \<Rightarrow> 'n event list" where
  "barrierEvents t = filter (\<lambda>e. e = Acquire \<or> e = Release) t"

subsection \<open>A small registry to run the engine on\<close>

text \<open>
  Two callbacks, one that returns normally and one that throws, both leaving the
  selection as it is; a local and a global table that share the name \<open>open\<close>; one
  condition rule; and a state with two selected nodes.
\<close>

definition leaveSelection ::
  "nat option list \<Rightarrow> string list \<Rightarrow> MappingMode \<Rightarrow> nat list \<Rightarrow> string option \<times> nat list" where
  "leaveSelection ns args m sel = (None, sel)"

definition throwBoom ::
  "nat option list \<Rightarrow> string list \<Rightarrow> MappingMode \<Rightarrow> nat list \<Rightarrow> string option \<times> nat list" where
  "throwBoom ns args m sel = (Some ''boom'', sel)"

definition mkAction ::
  "(nat option list \<Rightarrow> string list \<Rightarrow> MappingMode \<Rightarrow> nat list \<Rightarrow> string option \<times> nat list)
     \<Rightarrow> select_option option \<Rightarrow> bool option \<Rightarrow> bool option \<Rightarrow> string \<Rightarrow> (nat, string) Action" where
  "mkAction cb sel rnd rel descr =
     \<lparr>callback = cb, options = \<lparr>select = sel, render = rnd, reload = rel\<rparr>, description = descr\<rparr>"

definition exampleEnv :: "(nat, string) env" where
  "exampleEnv =
     \<lparr>actions =
        [''open'' \<mapsto> mkAction leaveSelection None None None ''open (local)'',
         ''delete'' \<mapsto> mkAction leaveSelection (Some (SelectBool True)) (Some True) (Some True) ''delete'',
         ''copy'' \<mapsto> mkAction leaveSelection (Some SelectKeep) (Some True) None ''copy'',
         ''yank'' \<mapsto> mkAction leaveSelection (Some SelectVisual) None None ''yank'',
         ''fail'' \<mapsto> mkAction throwBoom (Some SelectVisual) (Some True) (Some True) ''fail''],
      globalActions =
        [''open'' \<mapsto> mkAction leaveSelection (Some SelectVisual) None None ''open (global)'',
         ''refresh'' \<mapsto> mkAction leaveSelection None None (Some True) ''refresh''],
      waitActionName = ''wait'',
      conditionActionRules = [''even?'' \<mapsto> (\<lambda>s n args. even n)]\<rparr>"

definition exampleState :: "nat state" where
  "exampleState = \<lparr>selectedNodes = [2, 3], trace = []\<rparr>"

section \<open>Properties\<close>

subsection \<open>Helpers: uniq, partition, post-effects\<close>

lemma set_uniq: "set (uniq xs) = set xs"
  by (induction xs rule: uniq.induct) auto

lemma distinct_uniq: "distinct (uniq xs)"
  by (induction xs rule: uniq.induct) (auto simp: set_uniq)

lemma trace_doAction_finally:
  "trace (doAction_finally opts s) =
     trace s @ (if orDefault False (reload opts) then [Load]
                else if orDefault False (render opts) then [Render] else [])"
  by (simp add: doAction_finally_def source_load_def view_render_def emit_def)

lemma selectedNodes_doAction_finally:
  "selectedNodes (doAction_finally opts s) = selectedNodes s"
  by (simp add: doAction_finally_def source_load_def view_render_def emit_def)

lemma objectGet_Own_iff [simp]: "objectGet obj name = Own v \<longleftrightarrow> obj name = Some v"
  by (simp add: objectGet_def split: option.splits)

lemma objectGet_Undefined_iff:
  "objectGet obj name = Undefined \<longleftrightarrow> obj name = None \<and> name \<notin> set objectPrototypeNames"
  by (simp add: objectGet_def split: option.splits)

lemma objectGet_Inherited_iff:
  "objectGet obj name = Inherited \<longleftrightarrow> obj name = None \<and> name \<in> set objectPrototypeNames"
  by (simp add: objectGet_def split: option.splits)

lemma doAction_resolved:
  "registeredAction env name = Own action \<Longrightarrow>
   doAction env name nodes args_opt mode_opt s =
     (fst (doAction_try action name (finalNodesOf nodes) (orDefault [] args_opt) (orDefault ''n'' mode_opt) s),
      doAction_finally (options action)
        (snd (doAction_try action name (finalNodesOf nodes) (orDefault [] args_opt) (orDefault ''n'' mode_opt) s)))"
  by (simp add: doAction_def split: prod.splits)

subsection \<open>Helpers: one iteration of the loop, and its barrier events\<close>

lemma barrierEvents_append [simp]: "barrierEvents (t @ u) = barrierEvents t @ barrierEvents u"
  by (simp add: barrierEvents_def)

lemma barrierEvents_simps [simp]:
  "barrierEvents [] = []"
  "barrierEvents (Acquire # t) = Acquire # barrierEvents t"
  "barrierEvents (Release # t) = Release # barrierEvents t"
  "barrierEvents (Load # t) = barrierEvents t"
  "barrierEvents (Render # t) = barrierEvents t"
  "barrierEvents (RequestRenderNodes ns # t) = barrierEvents t"
  "barrierEvents (Callback name os args m # t) = barrierEvents t"
  by (simp_all add: barrierEvents_def)

lemma partition_util_filter:
  "partition_util xs p = (filter p xs, filter (\<lambda>x. \<not> p x) xs)"
  by (induction xs) auto

lemma barrierEvents_doAction_try:
  "barrierEvents (trace (snd (doAction_try action name ns args m s))) = barrierEvents (trace s)"
  by (simp add: doAction_try_def callback_call_def selectedNodes_clear_def
      view_requestRenderNodes_def emit_def Let_def split: prod.splits)

lemma barrierEvents_doAction_finally:
  "barrierEvents (trace (doAction_finally opts s)) = barrierEvents (trace s)"
  by (simp add: doAction_finally_def source_load_def view_render_def emit_def)

lemma barrierEvents_doAction:
  "barrierEvents (trace (snd (doAction env name nodes args_opt mode_opt s))) = barrierEvents (trace s)"
  by (simp add: doAction_def barrierEvents_doAction_try barrierEvents_doAction_finally
      Let_def split: property.splits prod.splits)
    (metis barrierEvents_doAction_try snd_conv)

lemma loop_end:
  "\<not> i < length xs \<Longrightarrow> doActionExp_loop env xs i nodes m isSub w s = (None, w, s)"
  by (subst doActionExp_loop.simps) simp

lemma loop_seq:
  "i < length xs \<Longrightarrow> xs ! i = Seq ys \<Longrightarrow>
   doActionExp_loop env xs i nodes m isSub w s =
     (case doActionExp env (Some (Seq ys)) nodes (subOptionsOf m) s of
        (Some e, s1) \<Rightarrow> (Some e, w, s1)
      | (None, s1) \<Rightarrow> doActionExp_loop env xs (i + 1) nodes m isSub w s1)"
  by (subst doActionExp_loop.simps) simp

lemma loop_wait_held:
  "i < length xs \<Longrightarrow> xs ! i = Leaf (waitActionName env) args \<Longrightarrow> w \<or> isSub \<Longrightarrow>
   doActionExp_loop env xs i nodes m isSub w s =
     doActionExp_loop env xs (i + 1) nodes m isSub w s"
  by (subst doActionExp_loop.simps) simp

lemma loop_wait_acquire:
  "i < length xs \<Longrightarrow> xs ! i = Leaf (waitActionName env) args \<Longrightarrow> \<not> w \<Longrightarrow> \<not> isSub \<Longrightarrow>
   doActionExp_loop env xs i nodes m isSub w s =
     doActionExp_loop env xs (i + 1) nodes m isSub True (mutex_acquire s)"
  by (subst doActionExp_loop.simps) simp

lemma loop_inherited:
  "i < length xs \<Longrightarrow> xs ! i = Leaf name args \<Longrightarrow> name \<noteq> waitActionName env \<Longrightarrow>
   objectGet (conditionActionRules env) name = Inherited \<Longrightarrow>
   doActionExp_loop env xs i nodes m isSub w s =
     (if nodes \<noteq> [] then (Some TypeError, w, s)
      else doActionExp_loop env xs (i + 3) nodes m isSub w s)"
  by (subst doActionExp_loop.simps) simp

lemma loop_leaf:
  "i < length xs \<Longrightarrow> xs ! i = Leaf name args \<Longrightarrow> name \<noteq> waitActionName env \<Longrightarrow>
   objectGet (conditionActionRules env) name = Undefined \<Longrightarrow>
   doActionExp_loop env xs i nodes m isSub w s =
     (case doActionExp env (Some (Leaf name args)) nodes (subOptionsOf m) s of
        (Some e, s1) \<Rightarrow> (Some e, w, s1)
      | (None, s1) \<Rightarrow> doActionExp_loop env xs (i + 1) nodes m isSub w s1)"
  by (subst doActionExp_loop.simps) simp

lemma loop_condition:
  assumes "i < length xs" and "xs ! i = Leaf name args" and "name \<noteq> waitActionName env"
    and "conditionActionRules env name = Some rule"
  shows
   "doActionExp_loop env xs i nodes m isSub w s =
     (case (if filter (\<lambda>n. rule s n args) nodes \<noteq> []
            then doActionExp env (arrayGet xs (i + 1)) (filter (\<lambda>n. rule s n args) nodes)
                   (subOptionsOf m) s
            else (None, s)) of
        (Some e, s1) \<Rightarrow> (Some e, w, s1)
      | (None, s1) \<Rightarrow>
          (case (if filter (\<lambda>n. \<not> rule s n args) nodes \<noteq> []
                 then doActionExp env (arrayGet xs (i + 2)) (filter (\<lambda>n. \<not> rule s n args) nodes)
                        (subOptionsOf m) s1
                 else (None, s1)) of
             (Some e, s2) \<Rightarrow> (Some e, w, s2)
           | (None, s2) \<Rightarrow> doActionExp_loop env xs (i + 3) nodes m isSub w s2))"
proof -
  from assms(4) have own: "objectGet (conditionActionRules env) name = Own rule"
    by simp
  from assms(1-3) show ?thesis
    by (subst doActionExp_loop.simps)
      (simp add: own partition_util_filter Let_def
        cong: prod.case_cong option.case_cong if_cong)
qed

lemma barrier_sub:
    "isSubAction opts = Some True \<Longrightarrow>
     barrierEvents (trace (snd (doActionExp env eo nodes opts s))) = barrierEvents (trace s)"
  and barrier_loop:
    "barrierEvents (trace (snd (snd (doActionExp_loop env xs i nodes m isSub w s))))
       = barrierEvents (trace s)
           @ (if fst (snd (doActionExp_loop env xs i nodes m isSub w s)) \<and> \<not> w then [Acquire] else [])
     \<and> (w \<longrightarrow> fst (snd (doActionExp_loop env xs i nodes m isSub w s)))
     \<and> (isSub \<longrightarrow> fst (snd (doActionExp_loop env xs i nodes m isSub w s)) = w)"
proof (induction env eo nodes opts s and env xs i nodes m isSub w s
    rule: doActionExp_doActionExp_loop.induct)
  case (1 env nodes opts s)
  then show ?case by simp
next
  case (2 env name args nodes opts s)
  then show ?case by (simp add: barrierEvents_doAction)
next
  case (3 env actionExp nodes opts s)
  from "3.prems" have "orDefault False (isSubAction opts) = True" by simp
  with "3.IH" [OF refl refl] show ?case
    by (auto simp add: Let_def waitRelease_call_def emit_def split: prod.splits)
next
  case (4 env actionExp i nodes m isSub waitRelease s)
  show ?case
  proof (cases "i < length actionExp")
    case False
    then show ?thesis by (simp add: loop_end)
  next
    case True
    show ?thesis
    proof (cases "actionExp ! i")
      case (Seq ys)
      have sub: "isSubAction (subOptionsOf m) = Some True" by (simp add: subOptionsOf_def)
      obtain r s1 where d: "doActionExp env (Some (actionExp ! i)) nodes (subOptionsOf m) s = (r, s1)"
        by (cases "doActionExp env (Some (actionExp ! i)) nodes (subOptionsOf m) s")
      from "4.IH"(9) [OF True Seq sub] d
      have b1: "barrierEvents (trace s1) = barrierEvents (trace s)" by simp
      show ?thesis
      proof (cases r)
        case None
        from "4.IH"(10) [OF True Seq d [symmetric] None] b1 d None True Seq
        show ?thesis by (simp add: loop_seq)
      next
        case (Some e)
        with b1 d True Seq show ?thesis by (simp add: loop_seq)
      qed
    next
      case (Leaf name args)
      have sub: "isSubAction (subOptionsOf m) = Some True" by (simp add: subOptionsOf_def)
      show ?thesis
      proof (cases "name = waitActionName env")
        case isWait: True
        show ?thesis
        proof (cases "waitRelease \<or> isSub")
          case True
          have eq: "doActionExp_loop env actionExp i nodes m isSub waitRelease s
              = doActionExp_loop env actionExp (i + 1) nodes m isSub waitRelease s"
            by (rule loop_wait_held [OF \<open>i < length actionExp\<close> Leaf [unfolded isWait] True])
          show ?thesis
            unfolding eq by (rule "4.IH"(1) [OF \<open>i < length actionExp\<close> Leaf isWait True])
        next
          case False
          then have nw: "\<not> waitRelease" and ns: "\<not> isSub" by simp_all
          have eq: "doActionExp_loop env actionExp i nodes m isSub waitRelease s
              = doActionExp_loop env actionExp (i + 1) nodes m isSub True (mutex_acquire s)"
            by (rule loop_wait_acquire [OF \<open>i < length actionExp\<close> Leaf [unfolded isWait] nw ns])
          from "4.IH"(2) [OF \<open>i < length actionExp\<close> Leaf isWait False] nw ns
          show ?thesis
            unfolding eq by (simp add: mutex_acquire_def emit_def)
        qed
      next
        case notWait: False
        show ?thesis
        proof (cases "objectGet (conditionActionRules env) name")
          case Undefined
          obtain r s1 where d: "doActionExp env (Some (actionExp ! i)) nodes (subOptionsOf m) s = (r, s1)"
            by (cases "doActionExp env (Some (actionExp ! i)) nodes (subOptionsOf m) s")
          from "4.IH"(3) [OF True Leaf notWait Undefined sub] d
          have b1: "barrierEvents (trace s1) = barrierEvents (trace s)" by simp
          show ?thesis
          proof (cases r)
            case rNone: None
            from "4.IH"(4) [OF True Leaf notWait Undefined d [symmetric] rNone] b1 d rNone Leaf
            show ?thesis by (simp add: loop_leaf [OF True Leaf notWait Undefined])
          next
            case (Some e)
            with b1 d Leaf show ?thesis by (simp add: loop_leaf [OF True Leaf notWait Undefined])
          qed
        next
          case Inherited
          show ?thesis
          proof (cases "nodes = []")
            case True
            have eq: "doActionExp_loop env actionExp i nodes m isSub waitRelease s
                = doActionExp_loop env actionExp (i + 3) nodes m isSub waitRelease s"
              using True
              by (simp add: loop_inherited [OF \<open>i < length actionExp\<close> Leaf notWait Inherited])
            have ne: "\<not> nodes \<noteq> []" using True by simp
            show ?thesis
              unfolding eq
              by (rule "4.IH"(5) [OF \<open>i < length actionExp\<close> Leaf notWait Inherited ne])
          next
            case False
            then show ?thesis
              by (simp add: loop_inherited [OF \<open>i < length actionExp\<close> Leaf notWait Inherited])
          qed
        next
          case (Own rule)
          then have Some: "conditionActionRules env name = Some rule" by simp
          let ?T = "filter (\<lambda>n. rule s n args) nodes"
          let ?F = "filter (\<lambda>n. \<not> rule s n args) nodes"
          let ?tb = "if ?T \<noteq> [] then doActionExp env (arrayGet actionExp (i + 1)) ?T (subOptionsOf m) s
                     else (None, s)"
          have p: "(?T, ?F) = partition_util nodes (\<lambda>node. rule s node args)"
            by (simp add: partition_util_filter)
          obtain r1 s1 where d1: "?tb = (r1, s1)" by (cases ?tb)
          have b1: "barrierEvents (trace s1) = barrierEvents (trace s)"
          proof (cases "?T \<noteq> []")
            case True
            from "4.IH"(6) [OF \<open>i < length actionExp\<close> Leaf notWait Own p refl refl True sub] d1 True
            show ?thesis by simp
          next
            case False
            with d1 show ?thesis by simp
          qed
          show ?thesis
          proof (cases r1)
            case e1: (Some e)
            with b1 d1 show ?thesis by (simp add: loop_condition [OF True Leaf notWait Some])
          next
            case r1None: None
            let ?fb = "if ?F \<noteq> [] then doActionExp env (arrayGet actionExp (i + 2)) ?F (subOptionsOf m) s1
                       else (None, s1)"
            obtain r2 s2 where d2: "?fb = (r2, s2)" by (cases ?fb)
            have b2: "barrierEvents (trace s2) = barrierEvents (trace s1)"
            proof (cases "?F \<noteq> []")
              case True
              from "4.IH"(7) [OF \<open>i < length actionExp\<close> Leaf notWait Own p refl refl
                  d1 [symmetric] r1None True sub] d2 True
              show ?thesis by simp
            next
              case False
              with d2 show ?thesis by simp
            qed
            show ?thesis
            proof (cases r2)
              case e2: (Some e)
              with b1 b2 d1 d2 r1None show ?thesis
                by (simp add: loop_condition [OF True Leaf notWait Some])
            next
              case r2None: None
              from "4.IH"(8) [OF True Leaf notWait Own p refl refl d1 [symmetric] r1None
                  d2 [symmetric] r2None] b1 b2 d1 d2 r1None r2None
              show ?thesis
                by (simp add: loop_condition [OF True Leaf notWait Some])
            qed
          qed
        qed
      qed
    qed
  qed
qed

subsection \<open>The registry and doAction\<close>

text \<open>
  Claim C9. For a name registered in both tables, \<open>registeredAction\<close> returns the local
  action, and the merged mapping \<open>registeredActions\<close>, which the listing uses, holds
  the local entry under that name.
\<close>

theorem registeredAction_prefers_local:
  "actions env name = Some l \<Longrightarrow> globalActions env name = Some g \<Longrightarrow>
   registeredAction env name = Own l \<and> registeredActions env name = Some l"
  by (simp add: registeredAction_def objectGet_def registeredActions_def)

theorem registeredAction_prefers_local_witness:
  "actions exampleEnv ''open'' = Some (mkAction leaveSelection None None None ''open (local)'')
   \<and> globalActions exampleEnv ''open'' = Some (mkAction leaveSelection (Some SelectVisual) None None ''open (global)'')
   \<and> registeredAction exampleEnv ''open'' = Own (mkAction leaveSelection None None None ''open (local)'')
   \<and> registeredActions exampleEnv ''open'' = Some (mkAction leaveSelection None None None ''open (local)'')"
proof -
  have l: "actions exampleEnv ''open'' = Some (mkAction leaveSelection None None None ''open (local)'')"
    by (simp add: exampleEnv_def)
  have g: "globalActions exampleEnv ''open'' = Some (mkAction leaveSelection (Some SelectVisual) None None ''open (global)'')"
    by (simp add: exampleEnv_def)
  from registeredAction_prefers_local [OF l g] l g show ?thesis by simp
qed

text \<open>
  An unregistered name that \<open>Object.prototype\<close> does not provide either: both
  lookups give \<open>undefined\<close>, and \<open>doAction\<close> returns at once, for every node argument,
  arguments and mode, with no failure and the state it was given (no callback, no
  reload, no render, the selection unchanged).
\<close>

lemma doAction_unresolved_plain_name:
  "actions env name = None \<Longrightarrow> globalActions env name = None \<Longrightarrow>
   name \<notin> set objectPrototypeNames \<Longrightarrow>
   doAction env name nodes args_opt mode_opt s = (None, s)"
  by (simp add: doAction_def registeredAction_def objectGet_def)

text \<open>
  Claim C8. The claim asks the same of every unregistered name. The code does not
  deliver it for the names every object inherits: \<open>constructor\<close> is in neither table,
  yet \<open>this.actions['constructor']\<close> is the function \<open>Object\<close>, the test \<open>!action\<close>
  fails, \<open>action.options\<close> is \<open>undefined\<close> and \<open>doAction\<close> is rejected with a
  \<open>TypeError\<close> instead of returning.
\<close>

theorem doAction_inherited_name_throws:
  "actions exampleEnv ''constructor'' = None
   \<and> globalActions exampleEnv ''constructor'' = None
   \<and> doAction exampleEnv ''constructor'' (Multiple [1, 2]) (Some [''x'']) (Some ''v'') exampleState
       = (Some TypeError, exampleState)"
  by (simp add: doAction_def registeredAction_def objectGet_def objectPrototypeNames_def
      exampleEnv_def)

text \<open>
  Claim C1. For an action with \<open>select === true\<close>: \<open>allNodes\<close> is the duplicate-free
  union of the supplied nodes and the selection; the engine requests the re-render
  of exactly \<open>allNodes\<close>, then calls the callback with exactly \<open>allNodes\<close>, on a
  selection that has been cleared (the callback is applied to \<open>[]\<close>), then runs the
  post-effect. The selection after the call is what the callback made of the empty
  one: empty, when the callback does not modify it.
\<close>

theorem doAction_select:
  assumes "registeredAction env name = Own action"
    and "select (options action) = Some (SelectBool True)"
  shows
   "let allNodes = uniq (finalNodesOf nodes @ selectedNodes s);
        args = orDefault [] args_opt;
        m = orDefault ''n'' mode_opt;
        (out, sel) = callback action (map Some allNodes) args m [];
        (r, s') = doAction env name nodes args_opt mode_opt s
    in set allNodes = set (finalNodesOf nodes) \<union> set (selectedNodes s)
     \<and> distinct allNodes
     \<and> trace s' = trace s @ [RequestRenderNodes allNodes, Callback name (map Some allNodes) args m]
                     @ (if orDefault False (reload (options action)) then [Load]
                        else if orDefault False (render (options action)) then [Render] else [])
     \<and> r = map_option Thrown out
     \<and> selectedNodes s' = sel
     \<and> (sel = [] \<longrightarrow> selectedNodes s' = [])"
  using assms
  by (simp add: doAction_resolved doAction_try_def callback_call_def selectedNodes_clear_def
      view_requestRenderNodes_def emit_def trace_doAction_finally selectedNodes_doAction_finally
      set_uniq distinct_uniq Let_def split: prod.splits)


theorem doAction_select_witness:
  "registeredAction exampleEnv ''delete''
     = Own (mkAction leaveSelection (Some (SelectBool True)) (Some True) (Some True) ''delete'')
   \<and> fst (doAction exampleEnv ''delete'' (Multiple [1, 2]) None None exampleState) = None
   \<and> selectedNodes (snd (doAction exampleEnv ''delete'' (Multiple [1, 2]) None None exampleState)) = []
   \<and> trace (snd (doAction exampleEnv ''delete'' (Multiple [1, 2]) None None exampleState))
       = [RequestRenderNodes [1, 2, 3], Callback ''delete'' [Some 1, Some 2, Some 3] [] ''n'', Load]"
proof -
  have a: "registeredAction exampleEnv ''delete''
     = Own (mkAction leaveSelection (Some (SelectBool True)) (Some True) (Some True) ''delete'')"
    by (simp add: registeredAction_def objectGet_def exampleEnv_def)
  have b: "select (options (mkAction leaveSelection (Some (SelectBool True)) (Some True) (Some True) ''delete''))
     = Some (SelectBool True)"
    by (simp add: mkAction_def)
  from doAction_select [OF a b, where nodes = "Multiple [1, 2]" and s = exampleState
      and args_opt = None and mode_opt = None] a
  show ?thesis
    by (simp add: Let_def exampleState_def mkAction_def leaveSelection_def split: prod.splits)
qed

text \<open>
  Claim C3. For an action with \<open>select === 'keep'\<close>: the callback is called with the
  duplicate-free union of the supplied nodes and the selection; it is applied to the
  selection as it was before the call (nothing was cleared), and the selection after
  the call is what the callback returned, so it is unchanged when the callback does
  not modify it; among the calls the engine logged there is no
  \<open>requestRenderNodes\<close>.
\<close>

theorem doAction_keep_frame:
  assumes "registeredAction env name = Own action"
    and "select (options action) = Some SelectKeep"
  shows
   "let allNodes = uniq (finalNodesOf nodes @ selectedNodes s);
        args = orDefault [] args_opt;
        m = orDefault ''n'' mode_opt;
        (out, sel) = callback action (map Some allNodes) args m (selectedNodes s);
        (r, s') = doAction env name nodes args_opt mode_opt s
    in set allNodes = set (finalNodesOf nodes) \<union> set (selectedNodes s)
     \<and> distinct allNodes
     \<and> trace s' = trace s @ [Callback name (map Some allNodes) args m]
                     @ (if orDefault False (reload (options action)) then [Load]
                        else if orDefault False (render (options action)) then [Render] else [])
     \<and> (\<forall>ns. RequestRenderNodes ns \<notin> set (drop (length (trace s)) (trace s')))
     \<and> r = map_option Thrown out
     \<and> selectedNodes s' = sel
     \<and> (sel = selectedNodes s \<longrightarrow> selectedNodes s' = selectedNodes s)"
  using assms
  by (simp add: doAction_resolved doAction_try_def callback_call_def
      trace_doAction_finally selectedNodes_doAction_finally
      set_uniq distinct_uniq Let_def split: prod.splits)

theorem doAction_keep_frame_witness:
  "registeredAction exampleEnv ''copy''
     = Own (mkAction leaveSelection (Some SelectKeep) (Some True) None ''copy'')
   \<and> fst (doAction exampleEnv ''copy'' (Multiple [1, 2]) None None exampleState) = None
   \<and> selectedNodes (snd (doAction exampleEnv ''copy'' (Multiple [1, 2]) None None exampleState)) = [2, 3]
   \<and> trace (snd (doAction exampleEnv ''copy'' (Multiple [1, 2]) None None exampleState))
       = [Callback ''copy'' [Some 1, Some 2, Some 3] [] ''n'', Render]"
proof -
  have a: "registeredAction exampleEnv ''copy''
     = Own (mkAction leaveSelection (Some SelectKeep) (Some True) None ''copy'')"
    by (simp add: registeredAction_def objectGet_def exampleEnv_def)
  have b: "select (options (mkAction leaveSelection (Some SelectKeep) (Some True) None ''copy''))
     = Some SelectKeep"
    by (simp add: mkAction_def)
  from doAction_keep_frame [OF a b, where nodes = "Multiple [1, 2]" and s = exampleState
      and args_opt = None and mode_opt = None] a
  show ?thesis
    by (simp add: Let_def exampleState_def mkAction_def leaveSelection_def split: prod.splits)
qed

text \<open>
  Claim C2, as stated, fails. With the action \<open>copy\<close> (\<open>select: 'keep'\<close>, a callback that
  does not touch the selection), the supplied node 1 and the selection \<open>{2, 3}\<close>, the
  selection after the call is still \<open>{2, 3}\<close>, not the union \<open>{1, 2, 3}\<close>.
\<close>

theorem keep_does_not_extend_selection:
  "set (selectedNodes (snd (doAction exampleEnv ''copy'' (Multiple [1]) None None exampleState)))
     \<noteq> set (uniq ([1] @ selectedNodes exampleState))"
proof -
  have "selectedNodes (snd (doAction exampleEnv ''copy'' (Multiple [1]) None None exampleState)) = [2, 3]"
    by (simp add: doAction_def registeredAction_def objectGet_def exampleEnv_def exampleState_def mkAction_def
        leaveSelection_def doAction_try_def callback_call_def doAction_finally_def view_render_def
        source_load_def emit_def Let_def)
  moreover have "uniq ([1] @ selectedNodes exampleState) = [1, 2, 3]"
    by (simp add: exampleState_def)
  moreover have "(1::nat) \<in> set [1, 2, 3]" and "(1::nat) \<notin> set [2, 3]"
    by simp_all
  ultimately show ?thesis
    by metis
qed

text \<open>
  Claim C2, amended. For an action with \<open>select === 'keep'\<close>: the callback received the
  duplicate-free union of the supplied nodes and the selection before the call, and
  \<open>doAction\<close> itself does not add the supplied nodes to the selection: after the call
  the selection is what the callback made of the selection before the call, hence
  equal to it when the callback does not modify it.
\<close>

theorem doAction_keep_selection_untouched:
  assumes "registeredAction env name = Own action"
    and "select (options action) = Some SelectKeep"
  shows
   "let args = orDefault [] args_opt;
        m = orDefault ''n'' mode_opt;
        given = map Some (uniq (finalNodesOf nodes @ selectedNodes s));
        s' = snd (doAction env name nodes args_opt mode_opt s)
    in Callback name given args m \<in> set (trace s')
     \<and> set given = Some ` (set (finalNodesOf nodes) \<union> set (selectedNodes s))
     \<and> distinct given
     \<and> selectedNodes s' = snd (callback action given args m (selectedNodes s))
     \<and> (snd (callback action given args m (selectedNodes s)) = selectedNodes s
          \<longrightarrow> selectedNodes s' = selectedNodes s)"
  using assms
  by (simp add: doAction_resolved doAction_try_def callback_call_def
      trace_doAction_finally selectedNodes_doAction_finally
      set_uniq distinct_uniq distinct_map Let_def split: prod.splits)

theorem doAction_keep_selection_untouched_witness:
  "registeredAction exampleEnv ''copy''
     = Own (mkAction leaveSelection (Some SelectKeep) (Some True) None ''copy'')
   \<and> Callback ''copy'' [Some 1, Some 2, Some 3] [] ''n''
       \<in> set (trace (snd (doAction exampleEnv ''copy'' (Multiple [1]) None None exampleState)))
   \<and> selectedNodes (snd (doAction exampleEnv ''copy'' (Multiple [1]) None None exampleState)) = [2, 3]"
proof -
  have a: "registeredAction exampleEnv ''copy''
     = Own (mkAction leaveSelection (Some SelectKeep) (Some True) None ''copy'')"
    by (simp add: registeredAction_def objectGet_def exampleEnv_def)
  have b: "select (options (mkAction leaveSelection (Some SelectKeep) (Some True) None ''copy''))
     = Some SelectKeep"
    by (simp add: mkAction_def)
  from doAction_keep_selection_untouched [OF a b, where nodes = "Multiple [1]" and s = exampleState
      and args_opt = None and mode_opt = None] a
  show ?thesis
    by (simp add: Let_def exampleState_def mkAction_def leaveSelection_def split: prod.splits)
qed

text \<open>
  Claim C7. For an action whose \<open>select\<close> is absent or \<open>false\<close> and a non-empty list of
  supplied nodes: the callback is called with the one-element list of the first
  supplied node, whatever the selection is; the callback is applied to the
  selection as it was, and the selection after the call is what the callback
  returned, so it is unchanged when the callback does not modify it.
\<close>

theorem doAction_replace_single:
  assumes "registeredAction env name = Own action"
    and "orDefault (SelectBool False) (select (options action)) = SelectBool False"
    and "finalNodesOf nodes = x # rest"
  shows
   "let args = orDefault [] args_opt;
        m = orDefault ''n'' mode_opt;
        (out, sel) = callback action [Some x] args m (selectedNodes s);
        (r, s') = doAction env name nodes args_opt mode_opt s
    in trace s' = trace s @ [Callback name [Some x] args m]
                     @ (if orDefault False (reload (options action)) then [Load]
                        else if orDefault False (render (options action)) then [Render] else [])
     \<and> r = map_option Thrown out
     \<and> selectedNodes s' = sel
     \<and> (sel = selectedNodes s \<longrightarrow> selectedNodes s' = selectedNodes s)"
  using assms
  by (simp add: doAction_resolved doAction_try_def callback_call_def arrayGet_def
      trace_doAction_finally selectedNodes_doAction_finally Let_def split: prod.splits)

theorem doAction_replace_single_witness:
  "registeredAction exampleEnv ''open''
     = Own (mkAction leaveSelection None None None ''open (local)'')
   \<and> fst (doAction exampleEnv ''open'' (Multiple [5, 6, 2]) (Some [''split'']) (Some ''v'') exampleState) = None
   \<and> selectedNodes (snd (doAction exampleEnv ''open'' (Multiple [5, 6, 2]) (Some [''split'']) (Some ''v'') exampleState))
       = [2, 3]
   \<and> trace (snd (doAction exampleEnv ''open'' (Multiple [5, 6, 2]) (Some [''split'']) (Some ''v'') exampleState))
       = [Callback ''open'' [Some 5] [''split''] ''v'']"
proof -
  have a: "registeredAction exampleEnv ''open''
     = Own (mkAction leaveSelection None None None ''open (local)'')"
    by (simp add: registeredAction_def objectGet_def exampleEnv_def)
  have b: "orDefault (SelectBool False)
             (select (options (mkAction leaveSelection None None None ''open (local)'')))
           = SelectBool False"
    by (simp add: mkAction_def)
  have c: "finalNodesOf (Multiple [5, 6, 2::nat]) = 5 # [6, 2]" by simp
  from doAction_replace_single [OF a b c, where s = exampleState
      and args_opt = "Some [''split'']" and mode_opt = "Some ''v''"] a
  show ?thesis
    by (simp add: Let_def exampleState_def mkAction_def leaveSelection_def split: prod.splits)
qed

text \<open>
  Claim C6. For a resolved action, whatever its \<open>select\<close> option and whether its
  callback returns or throws: the calls logged by \<open>doAction\<close> are an optional
  \<open>requestRenderNodes\<close>, the callback, and then the post-effect, which is \<open>load\<close> alone
  when the action declares \<open>reload\<close>, else \<open>render\<close> alone when it declares \<open>render\<close>,
  else nothing; the outcome of \<open>doAction\<close> is the outcome of the callback, the thrown
  value unchanged.
\<close>

theorem doAction_post_effects:
  assumes "registeredAction env name = Own action"
  shows
   "let args = orDefault [] args_opt;
        m = orDefault ''n'' mode_opt;
        (r, s') = doAction env name nodes args_opt mode_opt s
    in \<exists>pre ns out sel.
         trace s' = trace s @ pre @ [Callback name ns args m]
                      @ (if orDefault False (reload (options action)) then [Load]
                         else if orDefault False (render (options action)) then [Render] else [])
       \<and> (pre = [] \<or> (\<exists>U. pre = [RequestRenderNodes U]))
       \<and> callback action ns args m (if pre = [] then selectedNodes s else []) = (out, sel)
       \<and> r = map_option Thrown out
       \<and> selectedNodes s' = sel"
proof (cases "orDefault (SelectBool False) (select (options action))")
  case (SelectBool b)
  then show ?thesis using assms
    by (cases b)
      (auto simp add: doAction_resolved doAction_try_def callback_call_def selectedNodes_clear_def
        view_requestRenderNodes_def emit_def trace_doAction_finally selectedNodes_doAction_finally
        Let_def split: prod.splits)
next
  case SelectVisual
  then show ?thesis using assms
    by (auto simp add: doAction_resolved doAction_try_def callback_call_def
        trace_doAction_finally selectedNodes_doAction_finally Let_def split: prod.splits)
next
  case SelectKeep
  then show ?thesis using assms
    by (auto simp add: doAction_resolved doAction_try_def callback_call_def
        trace_doAction_finally selectedNodes_doAction_finally Let_def split: prod.splits)
qed

theorem doAction_post_effects_witness:
  "registeredAction exampleEnv ''fail''
     = Own (mkAction throwBoom (Some SelectVisual) (Some True) (Some True) ''fail'')
   \<and> doAction exampleEnv ''fail'' (Single 7) None None exampleState
       = (Some (Thrown ''boom''),
          \<lparr>selectedNodes = [2, 3], trace = [Callback ''fail'' [Some 7] [] ''n'', Load]\<rparr>)
   \<and> (\<exists>pre ns out sel.
         [Callback ''fail'' [Some 7] [] ''n'', Load] = pre @ [Callback ''fail'' ns [] ''n''] @ [Load]
       \<and> (pre = [] \<or> (\<exists>U. pre = [RequestRenderNodes U]))
       \<and> throwBoom ns [] ''n'' (if pre = [] then [2, 3] else []) = (out, sel)
       \<and> Some (Thrown ''boom'') = map_option Thrown out
       \<and> [2, 3] = sel)"
proof -
  have a: "registeredAction exampleEnv ''fail''
     = Own (mkAction throwBoom (Some SelectVisual) (Some True) (Some True) ''fail'')"
    by (simp add: registeredAction_def objectGet_def exampleEnv_def)
  have d: "doAction exampleEnv ''fail'' (Single 7) None None exampleState
       = (Some (Thrown ''boom''),
          \<lparr>selectedNodes = [2, 3], trace = [Callback ''fail'' [Some 7] [] ''n'', Load]\<rparr>)"
    by (simp add: doAction_def a doAction_try_def callback_call_def doAction_finally_def
        source_load_def emit_def exampleState_def mkAction_def throwBoom_def Let_def)
  from doAction_post_effects [OF a, where nodes = "Single 7" and s = exampleState
      and args_opt = None and mode_opt = None] a d
  show ?thesis
    by (simp add: exampleState_def mkAction_def)
qed

subsection \<open>doActionExp: conditions, the barrier, missing branches\<close>

text \<open>
  Claim C4, as stated, fails. In \<open>[even?, even?, yank, yank f]\<close> the element 1 is a
  condition leaf followed by two elements, yet the run does not treat it as a
  router: the scan is at element 0, takes the elements 1 and 2 for its branches and
  goes on at element 3. The element 1 is run as a plain action name (which is not
  registered), the element 2 is run on the odd node 5, and the element 3 on both
  nodes, the even node 2 among them.
\<close>

theorem router_consumed_as_branch:
  "[Leaf ''even?'' [], Leaf ''even?'' [], Leaf ''yank'' [], Leaf ''yank'' [''f'']] ! 1 = Leaf ''even?'' []
   \<and> 1 + 2 < length [Leaf ''even?'' [], Leaf ''even?'' [], Leaf ''yank'' [], Leaf ''yank'' [''f'']]
   \<and> conditionActionRules exampleEnv ''even?'' = Some (\<lambda>s n args. even n)
   \<and> odd (5 :: nat) \<and> even (2 :: nat)
   \<and> doActionExp exampleEnv
        (Some (Seq [Leaf ''even?'' [], Leaf ''even?'' [], Leaf ''yank'' [], Leaf ''yank'' [''f'']]))
        [5, 2] \<lparr>mode = None, isSubAction = None\<rparr> exampleState
       = (None,
          \<lparr>selectedNodes = [2, 3],
           trace = [Callback ''yank'' [Some 5] [] ''n'',
                    Callback ''yank'' [Some 5, Some 2] [''f''] ''n'']\<rparr>)"
proof -
  let ?xs = "[Leaf ''even?'' [], Leaf ''even?'' [], Leaf ''yank'' [], Leaf ''yank'' [''f'']]"
  have w: "waitActionName exampleEnv = ''wait''" by (simp add: exampleEnv_def)
  have c: "conditionActionRules exampleEnv ''even?'' = Some (\<lambda>s n args. even n)"
    by (simp add: exampleEnv_def)
  have c': "objectGet (conditionActionRules exampleEnv) ''even?'' = Own (\<lambda>s n args. even n)"
    using c by simp
  have cy: "objectGet (conditionActionRules exampleEnv) ''yank'' = Undefined"
    by (simp add: objectGet_def objectPrototypeNames_def exampleEnv_def)
  have e: "registeredAction exampleEnv ''even?'' = Undefined"
    by (simp add: registeredAction_def objectGet_def objectPrototypeNames_def exampleEnv_def)
  have y: "registeredAction exampleEnv ''yank''
      = Own (mkAction leaveSelection (Some SelectVisual) None None ''yank'')"
    by (simp add: registeredAction_def objectGet_def exampleEnv_def)
  have l3: "doActionExp_loop exampleEnv ?xs 3 [5, 2] ''n'' False False
              \<lparr>selectedNodes = [2, 3], trace = [Callback ''yank'' [Some 5] [] ''n'']\<rparr>
            = (None, False,
               \<lparr>selectedNodes = [2, 3],
                trace = [Callback ''yank'' [Some 5] [] ''n'',
                         Callback ''yank'' [Some 5, Some 2] [''f''] ''n'']\<rparr>)"
    by (subst doActionExp_loop.simps)
      (simp add: w cy y loop_end doAction_def doAction_try_def callback_call_def
        doAction_finally_def subOptionsOf_def mkAction_def leaveSelection_def Let_def)
  have l0: "doActionExp_loop exampleEnv ?xs 0 [5, 2] ''n'' False False exampleState
            = doActionExp_loop exampleEnv ?xs 3 [5, 2] ''n'' False False
              \<lparr>selectedNodes = [2, 3], trace = [Callback ''yank'' [Some 5] [] ''n'']\<rparr>"
    by (subst doActionExp_loop.simps)
      (simp add: w c' e y arrayGet_def doAction_def doAction_try_def callback_call_def
        doAction_finally_def subOptionsOf_def mkAction_def leaveSelection_def exampleState_def
        Let_def)
  show ?thesis
    by (simp add: c l0 l3 Let_def)
qed

text \<open>
  Claim C4, amended. A run of a sequence is the scan of the loop from index 0,
  followed by the release of the mutex when it is held. Whenever the scan is at an
  index \<open>i\<close> that holds a condition leaf (its name is in \<open>conditionActionRules\<close> and is
  not the wait name) and two more elements follow: the nodes are split by the rule's
  predicate, evaluated on the source as it is then; the element at \<open>i + 1\<close> is run on
  the nodes that satisfy it and the element at \<open>i + 2\<close> on those that do not, each
  only when its list is non-empty and each with \<open>isSubAction = true\<close>; a failure of a
  branch ends the scan with that failure; otherwise the scan goes on at \<open>i + 3\<close>.
\<close>

theorem doActionExp_condition:
  assumes "i + 2 < length actionExp"
    and "actionExp ! i = Leaf name args"
    and "name \<noteq> waitActionName env"
    and "conditionActionRules env name = Some rule"
  shows
   "doActionExp_loop env actionExp i nodes m isSub waitRelease s =
      (let trueNodes = filter (\<lambda>node. rule s node args) nodes;
           falseNodes = filter (\<lambda>node. \<not> rule s node args) nodes;
           subOptions = \<lparr>mode = Some m, isSubAction = Some True\<rparr>;
           (r1, s1) = (if trueNodes = [] then (None, s)
                       else doActionExp env (Some (actionExp ! (i + 1))) trueNodes subOptions s)
       in case r1 of
            Some e \<Rightarrow> (Some e, waitRelease, s1)
          | None \<Rightarrow>
              (let (r2, s2) = (if falseNodes = [] then (None, s1)
                               else doActionExp env (Some (actionExp ! (i + 2))) falseNodes subOptions s1)
               in case r2 of
                    Some e \<Rightarrow> (Some e, waitRelease, s2)
                  | None \<Rightarrow> doActionExp_loop env actionExp (i + 3) nodes m isSub waitRelease s2))
    \<and> doActionExp env (Some (Seq actionExp)) nodes opts s =
        (case doActionExp_loop env actionExp 0 nodes (orDefault ''n'' (mode opts))
                (orDefault False (isSubAction opts)) False s of
           (r, held, s1) \<Rightarrow> (r, if held then s1\<lparr>trace := trace s1 @ [Release]\<rparr> else s1))"
proof -
  from assms(1) have i: "i < length actionExp" by simp
  from assms(1) have g: "arrayGet actionExp (i + 1) = Some (actionExp ! (i + 1))"
    "arrayGet actionExp (i + 2) = Some (actionExp ! (i + 2))"
    by (simp_all add: arrayGet_def)
  show ?thesis
    unfolding loop_condition [OF i assms(2) assms(3) assms(4)] g
    by (simp add: subOptionsOf_def waitRelease_call_def emit_def Let_def
        split: prod.splits option.splits)
qed

theorem doActionExp_condition_witness:
  "conditionActionRules exampleEnv ''even?'' = Some (\<lambda>s n args. even n)
   \<and> doActionExp_loop exampleEnv [Leaf ''even?'' [], Leaf ''yank'' [], Leaf ''open'' []] 0
        [1, 2, 3, 4] ''n'' False False exampleState
       = (None, False,
          \<lparr>selectedNodes = [2, 3],
           trace = [Callback ''yank'' [Some 2, Some 4] [] ''n'', Callback ''open'' [Some 1] [] ''n'']\<rparr>)
   \<and> doActionExp exampleEnv (Some (Seq [Leaf ''even?'' [], Leaf ''yank'' [], Leaf ''open'' []]))
        [1, 2, 3, 4] \<lparr>mode = None, isSubAction = None\<rparr> exampleState
       = (None,
          \<lparr>selectedNodes = [2, 3],
           trace = [Callback ''yank'' [Some 2, Some 4] [] ''n'', Callback ''open'' [Some 1] [] ''n'']\<rparr>)"
proof -
  have a: "0 + 2 < length [Leaf ''even?'' [], Leaf ''yank'' [], Leaf ''open'' []]" by simp
  have b: "[Leaf ''even?'' [], Leaf ''yank'' [], Leaf ''open'' []] ! 0 = Leaf ''even?'' []" by simp
  have c: "''even?'' \<noteq> waitActionName exampleEnv" by (simp add: exampleEnv_def)
  have d: "conditionActionRules exampleEnv ''even?'' = Some (\<lambda>s n args. even n)"
    by (simp add: exampleEnv_def)
  have y: "registeredAction exampleEnv ''yank''
      = Own (mkAction leaveSelection (Some SelectVisual) None None ''yank'')"
    by (simp add: registeredAction_def objectGet_def exampleEnv_def)
  have z: "registeredAction exampleEnv ''open''
      = Own (mkAction leaveSelection None None None ''open (local)'')"
    by (simp add: registeredAction_def objectGet_def exampleEnv_def)
  note t = doActionExp_condition [OF a b c d, where nodes = "[1, 2, 3, 4]" and m = "''n''"
      and isSub = False and waitRelease = False and s = exampleState
      and opts = "\<lparr>mode = None, isSubAction = None\<rparr>"]
  have l: "doActionExp_loop exampleEnv [Leaf ''even?'' [], Leaf ''yank'' [], Leaf ''open'' []] 0
        [1, 2, 3, 4] ''n'' False False exampleState
       = (None, False,
          \<lparr>selectedNodes = [2, 3],
           trace = [Callback ''yank'' [Some 2, Some 4] [] ''n'', Callback ''open'' [Some 1] [] ''n'']\<rparr>)"
    using t [THEN conjunct1]
    by (simp add: Let_def loop_end doAction_def y z doAction_try_def callback_call_def
        doAction_finally_def arrayGet_def exampleState_def mkAction_def leaveSelection_def)
  from t [THEN conjunct2] l d show ?thesis
    by simp
qed

text \<open>
  Claim C5. A wait leaf met by the loop changes nothing when the release function
  is already held or the call is a sub-action; otherwise the mutex is acquired and
  the loop goes on holding the release function. A run of a sequence returns the
  outcome of its loop, normal or failed, after releasing the mutex exactly when the
  loop ended holding the release function: the barrier events the run adds to the
  trace are none, or one \<open>Acquire\<close> followed by one \<open>Release\<close>, and none for a
  sub-action.
\<close>

theorem doActionExp_barrier:
  "(i < length actionExp \<and> actionExp ! i = Leaf (waitActionName env) args
      \<and> (waitRelease \<or> isSub) \<longrightarrow>
      doActionExp_loop env actionExp i nodes m isSub waitRelease s
        = doActionExp_loop env actionExp (i + 1) nodes m isSub waitRelease s)
   \<and> (i < length actionExp \<and> actionExp ! i = Leaf (waitActionName env) args
      \<and> \<not> waitRelease \<and> \<not> isSub \<longrightarrow>
      doActionExp_loop env actionExp i nodes m isSub waitRelease s
        = doActionExp_loop env actionExp (i + 1) nodes m isSub True
            (s\<lparr>trace := trace s @ [Acquire]\<rparr>))
   \<and> (let m' = orDefault ''n'' (mode opts);
           isSub' = orDefault False (isSubAction opts);
           (r, held, s1) = doActionExp_loop env actionExp 0 nodes m' isSub' False s
       in doActionExp env (Some (Seq actionExp)) nodes opts s
            = (r, if held then s1\<lparr>trace := trace s1 @ [Release]\<rparr> else s1)
        \<and> barrierEvents (trace s1) = barrierEvents (trace s) @ (if held then [Acquire] else [])
        \<and> barrierEvents (trace (snd (doActionExp env (Some (Seq actionExp)) nodes opts s)))
            = barrierEvents (trace s) @ (if held then [Acquire, Release] else [])
        \<and> (isSub' \<longrightarrow> \<not> held))"
proof (intro conjI impI)
  assume "i < length actionExp \<and> actionExp ! i = Leaf (waitActionName env) args
      \<and> (waitRelease \<or> isSub)"
  then show "doActionExp_loop env actionExp i nodes m isSub waitRelease s
        = doActionExp_loop env actionExp (i + 1) nodes m isSub waitRelease s"
    by (simp add: loop_wait_held)
next
  assume "i < length actionExp \<and> actionExp ! i = Leaf (waitActionName env) args
      \<and> \<not> waitRelease \<and> \<not> isSub"
  then show "doActionExp_loop env actionExp i nodes m isSub waitRelease s
        = doActionExp_loop env actionExp (i + 1) nodes m isSub True
            (s\<lparr>trace := trace s @ [Acquire]\<rparr>)"
    by (simp add: loop_wait_acquire mutex_acquire_def emit_def)
next
  let ?m = "orDefault ''n'' (mode opts)"
  let ?b = "orDefault False (isSubAction opts)"
  obtain r held s1 where l: "doActionExp_loop env actionExp 0 nodes ?m ?b False s = (r, held, s1)"
    by (cases "doActionExp_loop env actionExp 0 nodes ?m ?b False s")
  have inv: "barrierEvents (trace s1) = barrierEvents (trace s) @ (if held then [Acquire] else [])"
    using barrier_loop [of env actionExp 0 nodes ?m ?b False s] unfolding l by simp
  have sub: "?b \<longrightarrow> \<not> held"
    using barrier_loop [of env actionExp 0 nodes ?m ?b False s] unfolding l by simp
  from l inv sub
  show "let m' = ?m; isSub' = ?b;
           (r, held, s1) = doActionExp_loop env actionExp 0 nodes m' isSub' False s
       in doActionExp env (Some (Seq actionExp)) nodes opts s
            = (r, if held then s1\<lparr>trace := trace s1 @ [Release]\<rparr> else s1)
        \<and> barrierEvents (trace s1) = barrierEvents (trace s) @ (if held then [Acquire] else [])
        \<and> barrierEvents (trace (snd (doActionExp env (Some (Seq actionExp)) nodes opts s)))
            = barrierEvents (trace s) @ (if held then [Acquire, Release] else [])
        \<and> (isSub' \<longrightarrow> \<not> held)"
    by (simp add: Let_def waitRelease_call_def emit_def)
qed

theorem doActionExp_barrier_witness:
  "doActionExp exampleEnv (Some (Seq [Leaf ''wait'' [], Leaf ''wait'' [], Leaf ''fail'' [], Leaf ''yank'' []]))
      [7] \<lparr>mode = None, isSubAction = None\<rparr> exampleState
     = (Some (Thrown ''boom''),
        \<lparr>selectedNodes = [2, 3],
         trace = [Acquire, Callback ''fail'' [Some 7] [] ''n'', Load, Release]\<rparr>)
   \<and> barrierEvents (trace (snd (doActionExp exampleEnv
        (Some (Seq [Leaf ''wait'' [], Leaf ''wait'' [], Leaf ''fail'' [], Leaf ''yank'' []]))
        [7] \<lparr>mode = None, isSubAction = None\<rparr> exampleState)))
     = [Acquire, Release]"
proof -
  have w: "waitActionName exampleEnv = ''wait''" by (simp add: exampleEnv_def)
  have c: "objectGet (conditionActionRules exampleEnv) ''fail'' = Undefined"
    by (simp add: objectGet_def objectPrototypeNames_def exampleEnv_def)
  have f: "registeredAction exampleEnv ''fail''
      = Own (mkAction throwBoom (Some SelectVisual) (Some True) (Some True) ''fail'')"
    by (simp add: registeredAction_def objectGet_def exampleEnv_def)
  let ?xs = "[Leaf ''wait'' [], Leaf ''wait'' [], Leaf ''fail'' [], Leaf ''yank'' []]"
  have l2: "doActionExp_loop exampleEnv ?xs (Suc (Suc 0)) [7] ''n'' False True
              \<lparr>selectedNodes = [2, 3], trace = [Acquire]\<rparr>
            = (Some (Thrown ''boom''), True,
               \<lparr>selectedNodes = [2, 3], trace = [Acquire, Callback ''fail'' [Some 7] [] ''n'', Load]\<rparr>)"
    by (subst doActionExp_loop.simps)
      (simp add: w c f doAction_def doAction_try_def callback_call_def doAction_finally_def
        source_load_def emit_def subOptionsOf_def mkAction_def throwBoom_def Let_def)
  have l1: "doActionExp_loop exampleEnv ?xs (Suc 0) [7] ''n'' False True
              \<lparr>selectedNodes = [2, 3], trace = [Acquire]\<rparr>
            = doActionExp_loop exampleEnv ?xs (Suc (Suc 0)) [7] ''n'' False True
              \<lparr>selectedNodes = [2, 3], trace = [Acquire]\<rparr>"
    using doActionExp_barrier [where env = exampleEnv and actionExp = ?xs and i = 1
        and waitRelease = True and isSub = False and args = "[]" and nodes = "[7]" and m = "''n''"
        and s = "\<lparr>selectedNodes = [2, 3], trace = [Acquire]\<rparr>", THEN conjunct1]
    by (simp add: w)
  have l0: "doActionExp_loop exampleEnv ?xs 0 [7] ''n'' False False exampleState
            = doActionExp_loop exampleEnv ?xs (Suc 0) [7] ''n'' False True
              \<lparr>selectedNodes = [2, 3], trace = [Acquire]\<rparr>"
    using doActionExp_barrier [where env = exampleEnv and actionExp = ?xs and i = 0
        and waitRelease = False and isSub = False and args = "[]" and nodes = "[7]" and m = "''n''"
        and s = exampleState, THEN conjunct2, THEN conjunct1]
    by (simp add: w exampleState_def)
  from doActionExp_barrier [where env = exampleEnv and actionExp = ?xs and nodes = "[7]"
      and opts = "\<lparr>mode = None, isSubAction = None\<rparr>" and s = exampleState,
      THEN conjunct2, THEN conjunct2]
  show ?thesis
    by (simp add: l0 l1 l2 Let_def waitRelease_call_def emit_def)
qed

text \<open>Both parts of a partition are empty only for the empty list.\<close>

lemma filter_both_empty:
  "filter p xs = [] \<Longrightarrow> filter (\<lambda>x. \<not> p x) xs = [] \<Longrightarrow> xs = []"
  by (cases xs) (auto split: if_splits)

text \<open>
  Claim C10, as stated, fails. In \<open>[even?, fail]\<close> the false branch is missing and the
  node 5 is routed to it, yet the run does not fail with a \<open>TypeError\<close>: the true
  branch runs first on the node 2, its callback throws, and that failure is the
  outcome of the run.
\<close>

theorem missing_branch_masked_by_failure:
  "conditionActionRules exampleEnv ''even?'' = Some (\<lambda>s n args. even n)
   \<and> arrayGet [Leaf ''even?'' [], Leaf ''fail'' []] 2 = None
   \<and> filter (\<lambda>n. \<not> even n) [2, 5 :: nat] = [5]
   \<and> doActionExp exampleEnv (Some (Seq [Leaf ''even?'' [], Leaf ''fail'' []])) [2, 5]
        \<lparr>mode = None, isSubAction = None\<rparr> exampleState
       = (Some (Thrown ''boom''),
          \<lparr>selectedNodes = [2, 3], trace = [Callback ''fail'' [Some 2] [] ''n'', Load]\<rparr>)
   \<and> Some (Thrown ''boom'') \<noteq> Some (TypeError :: string failure)"
proof -
  have w: "waitActionName exampleEnv = ''wait''" by (simp add: exampleEnv_def)
  have c: "conditionActionRules exampleEnv ''even?'' = Some (\<lambda>s n args. even n)"
    by (simp add: exampleEnv_def)
  have c': "objectGet (conditionActionRules exampleEnv) ''even?'' = Own (\<lambda>s n args. even n)"
    using c by simp
  have f: "registeredAction exampleEnv ''fail''
      = Own (mkAction throwBoom (Some SelectVisual) (Some True) (Some True) ''fail'')"
    by (simp add: registeredAction_def objectGet_def exampleEnv_def)
  have l: "doActionExp_loop exampleEnv [Leaf ''even?'' [], Leaf ''fail'' []] 0 [2, 5] ''n'' False False
             exampleState
           = (Some (Thrown ''boom''), False,
              \<lparr>selectedNodes = [2, 3], trace = [Callback ''fail'' [Some 2] [] ''n'', Load]\<rparr>)"
    by (subst doActionExp_loop.simps)
      (simp add: w c' f arrayGet_def doAction_def doAction_try_def callback_call_def
        doAction_finally_def source_load_def emit_def subOptionsOf_def mkAction_def throwBoom_def
        exampleState_def Let_def)
  show ?thesis
    by (simp add: c l arrayGet_def Let_def)
qed

text \<open>
  Claim C10, amended. When the loop is at a condition leaf that is the last element
  or the last but one: if it is the last, both branches are missing, and the loop
  ends with a \<open>TypeError\<close> unless there is no node at all; if it is the last but one,
  the element after it is run as the true branch on the nodes that satisfy the
  predicate (when there are any), a failure of that branch is the outcome, and
  otherwise the loop ends with a \<open>TypeError\<close> when some node fails the predicate and
  normally when none does. No branch that is missing is skipped silently, and the
  loop ends there.
\<close>

theorem doActionExp_missing_branch:
  assumes "i < length actionExp"
    and "length actionExp \<le> i + 2"
    and "actionExp ! i = Leaf name args"
    and "name \<noteq> waitActionName env"
    and "conditionActionRules env name = Some rule"
  shows
   "doActionExp_loop env actionExp i nodes m isSub waitRelease s =
      (let trueNodes = filter (\<lambda>node. rule s node args) nodes;
           falseNodes = filter (\<lambda>node. \<not> rule s node args) nodes;
           subOptions = \<lparr>mode = Some m, isSubAction = Some True\<rparr>
       in if i + 1 = length actionExp then
            (if nodes = [] then (None, waitRelease, s) else (Some TypeError, waitRelease, s))
          else
            (let (r1, s1) = (if trueNodes = [] then (None, s)
                             else doActionExp env (Some (actionExp ! (i + 1))) trueNodes subOptions s)
             in case r1 of
                  Some e \<Rightarrow> (Some e, waitRelease, s1)
                | None \<Rightarrow>
                    if falseNodes = [] then (None, waitRelease, s1)
                    else (Some TypeError, waitRelease, s1)))"
proof (cases "i + 1 = length actionExp")
  case True
  then have g: "arrayGet actionExp (i + 1) = None" "arrayGet actionExp (i + 2) = None"
    by (simp_all add: arrayGet_def)
  from True have e: "\<not> i + 3 < length actionExp" by simp
  show ?thesis
    unfolding loop_condition [OF assms(1) assms(3) assms(4) assms(5)] g
    using True filter_both_empty [of "\<lambda>node. rule s node args" nodes]
    by (auto simp add: loop_end [OF e] Let_def)
next
  case False
  with assms(1) assms(2) have len: "i + 2 = length actionExp" by simp
  then have g: "arrayGet actionExp (i + 1) = Some (actionExp ! (i + 1))"
    "arrayGet actionExp (i + 2) = None"
    by (simp_all add: arrayGet_def)
  from len have e: "\<not> i + 3 < length actionExp" by simp
  show ?thesis
    unfolding loop_condition [OF assms(1) assms(3) assms(4) assms(5)] g
    using False
    by (simp add: loop_end [OF e] subOptionsOf_def Let_def split: prod.splits option.splits)
qed

theorem doActionExp_missing_branch_witness:
  "conditionActionRules exampleEnv ''even?'' = Some (\<lambda>s n args. even n)
   \<and> doActionExp_loop exampleEnv [Leaf ''even?'' [], Leaf ''yank'' []] 0 [2, 4] ''n'' False False
        exampleState
       = (None, False,
          \<lparr>selectedNodes = [2, 3], trace = [Callback ''yank'' [Some 2, Some 4] [] ''n'']\<rparr>)
   \<and> doActionExp_loop exampleEnv [Leaf ''even?'' [], Leaf ''yank'' []] 0 [1, 2] ''n'' False False
        exampleState
       = (Some TypeError, False,
          \<lparr>selectedNodes = [2, 3], trace = [Callback ''yank'' [Some 2] [] ''n'']\<rparr>)
   \<and> doActionExp_loop exampleEnv [Leaf ''yank'' [], Leaf ''even?'' []] 1 [1, 2] ''n'' False False
        exampleState
       = (Some TypeError, False, exampleState)"
proof -
  have a: "0 < length [Leaf ''even?'' [], Leaf ''yank'' []]" by simp
  have b: "length [Leaf ''even?'' [], Leaf ''yank'' []] \<le> 0 + 2" by simp
  have c: "[Leaf ''even?'' [], Leaf ''yank'' []] ! 0 = Leaf ''even?'' []" by simp
  have a': "1 < length [Leaf ''yank'' [], Leaf ''even?'' []]" by simp
  have b': "length [Leaf ''yank'' [], Leaf ''even?'' []] \<le> 1 + 2" by simp
  have c': "[Leaf ''yank'' [], Leaf ''even?'' []] ! 1 = Leaf ''even?'' []" by simp
  have d: "''even?'' \<noteq> waitActionName exampleEnv" by (simp add: exampleEnv_def)
  have e: "conditionActionRules exampleEnv ''even?'' = Some (\<lambda>s n args. even n)"
    by (simp add: exampleEnv_def)
  have y: "registeredAction exampleEnv ''yank''
      = Own (mkAction leaveSelection (Some SelectVisual) None None ''yank'')"
    by (simp add: registeredAction_def objectGet_def exampleEnv_def)
  from doActionExp_missing_branch [OF a b c d e, where nodes = "[2, 4]" and m = "''n''"
      and isSub = False and waitRelease = False and s = exampleState]
    doActionExp_missing_branch [OF a b c d e, where nodes = "[1, 2]" and m = "''n''"
      and isSub = False and waitRelease = False and s = exampleState]
    doActionExp_missing_branch [OF a' b' c' d e, where nodes = "[1, 2]" and m = "''n''"
      and isSub = False and waitRelease = False and s = exampleState]
    e
  show ?thesis
    by (simp add: Let_def doAction_def y doAction_try_def callback_call_def
        doAction_finally_def exampleState_def mkAction_def leaveSelection_def)
qed

end
